theory Spec2Isabelle
  imports Main
begin

section \<open>Session and query lifecycle of the meta service\<close>

text \<open>
  A shallow embedding of the six processors of
  \<^verbatim>\<open>src/meta/processors/session/SessionManagerProcessor.cpp\<close>.
  Identifiers and timestamps are 64-bit integers in the source; the processors only
  compare and copy them, so they are modelled as \<open>int\<close>.
\<close>

subsection \<open>Data model\<close>

type_synonym SessionID = int
type_synonym ExecutionPlanID = int
type_synonym Timestamp = int
type_synonym HostAddr = "string \<times> int"

text \<open>
  Modelled from the spec: the error-code enumeration is declared outside the given
  sources. The four codes the processors name are constructors; \<open>E_OTHER n\<close> stands
  for every other code of the enumeration (leader changed, user not found, store
  failure, ...).
\<close>

datatype ErrorCode =
    SUCCEEDED
  | E_KEY_NOT_FOUND
  | E_SESSION_NOT_FOUND
  | E_QUERY_NOT_FOUND
  | E_OTHER int

datatype QueryStatus = RUNNING | KILLING

text \<open>
  Modelled from the spec: the thrift structures \<open>QueryDesc\<close> and \<open>Session\<close> are
  declared outside the given sources. A query descriptor has a status and metadata
  that the processors carry through unchanged; a session has the fields of section 3
  of the specification. The query table of a session is an unordered map in the
  source; here it is an association list whose order is the iteration order, read
  with \<open>map_of\<close>.
\<close>

record QueryDesc =
  start_time :: Timestamp
  status :: QueryStatus
  duration :: int
  query :: string

record Session =
  session_id :: SessionID
  create_time :: Timestamp
  update_time :: Timestamp
  user_name :: string
  graph_addr :: HostAddr
  client_ip :: string
  queries :: "(ExecutionPlanID \<times> QueryDesc) list"

text \<open>A default-constructed session, as a response holds before it is assigned.\<close>

definition default_Session :: Session where
  "default_Session =
     \<lparr>session_id = 0, create_time = 0, update_time = 0, user_name = [],
      graph_addr = ([], 0), client_ip = [], queries = []\<rparr>"

subsection \<open>The key-value store and the other collaborators\<close>

text \<open>
  Modelled from the spec: the store, the key codec (\<open>sessionKey\<close>, \<open>sessionVal\<close>,
  \<open>parseSessionVal\<close>), the user directory and the clock are outside the given
  sources. The persisted table maps a session id to the session stored under its
  key (the codec is taken to round-trip). \<open>issued\<close> records every mutating request
  sent to the store, whether or not it succeeded.
\<close>

datatype store_call =
    MultiPut "(SessionID \<times> Session) list"
  | Remove SessionID

record store =
  table :: "SessionID \<rightharpoonup> Session"
  issued :: "store_call list"

text \<open>
  What the collaborators answer during one call of a processor: the code of the user
  directory for a user, the clock reading, the code the store gives to a lookup or a
  remove of each key (one answer per key and call) and to the batched write
  (\<open>SUCCEEDED\<close> when the store serves the request; a request that is not served
  leaves the table as it was), the result of the prefix scan, and the session that
  \<open>parseSessionVal (value ret)\<close> yields when \<open>ret\<close> holds an error, which the
  given sources do not define.
\<close>

record env =
  userExist :: "string \<Rightarrow> ErrorCode"
  fastNowInMicroSec :: int
  get_code :: "SessionID \<Rightarrow> ErrorCode"
  put_code :: ErrorCode
  remove_code :: "SessionID \<Rightarrow> ErrorCode"
  prefix_code :: ErrorCode
  prefix_scan :: "(SessionID \<rightharpoonup> Session) \<Rightarrow> Session list"
  failed_value :: "ErrorCode \<Rightarrow> Session"

definition doGet :: "env \<Rightarrow> store \<Rightarrow> SessionID \<Rightarrow> ErrorCode + Session" where
  "doGet e st k =
     (if get_code e k \<noteq> SUCCEEDED then Inl (get_code e k)
      else case table st k of None \<Rightarrow> Inl E_KEY_NOT_FOUND | Some v \<Rightarrow> Inr v)"

definition put_all :: "(SessionID \<times> Session) list \<Rightarrow> (SessionID \<rightharpoonup> Session) \<Rightarrow> (SessionID \<rightharpoonup> Session)" where
  "put_all data t = fold (\<lambda>kv m. m(fst kv \<mapsto> snd kv)) data t"

definition doSyncPut :: "env \<Rightarrow> store \<Rightarrow> (SessionID \<times> Session) list \<Rightarrow> store \<times> ErrorCode" where
  "doSyncPut e st data =
     (st\<lparr>table := (if put_code e = SUCCEEDED then put_all data (table st) else table st),
         issued := issued st @ [MultiPut data]\<rparr>,
      put_code e)"

definition asyncRemove :: "env \<Rightarrow> store \<Rightarrow> SessionID \<Rightarrow> store \<times> ErrorCode" where
  "asyncRemove e st k =
     (st\<lparr>table := (if remove_code e k = SUCCEEDED then (table st)(k := None) else table st),
         issued := issued st @ [Remove k]\<rparr>,
      remove_code e k)"

text \<open>
  Modelled from the spec: \<open>nebula::value\<close> and \<open>parseSessionVal\<close> are outside the
  given sources. On a successful lookup the parsed value is the stored session; on a
  failed one it is whatever the environment's \<open>failed_value\<close> gives for the error.
\<close>

definition session_value :: "env \<Rightarrow> ErrorCode + Session \<Rightarrow> Session" where
  "session_value e ret = (case ret of Inr v \<Rightarrow> v | Inl c \<Rightarrow> failed_value e c)"

subsection \<open>Responses\<close>

text \<open>
  Modelled from the spec: the response structures and \<open>handleErrorCode\<close> belong to
  the processors' base class, outside the given sources. Every response carries an
  error code, which \<open>handleErrorCode\<close> sets.
\<close>

record Resp =
  code :: ErrorCode

record CreateSessionResp = Resp +
  session :: Session

record UpdateSessionsResp = Resp +
  killed_queries :: "SessionID \<rightharpoonup> (ExecutionPlanID \<times> QueryDesc) list"
  killed_sessions :: "SessionID list"


record RemoveSessionResp = Resp +
  removed_session_ids :: "SessionID list"

definition handleErrorCode :: "ErrorCode \<Rightarrow> 'a Resp_scheme \<Rightarrow> 'a Resp_scheme" where
  "handleErrorCode c r = r\<lparr>code := c\<rparr>"

definition CreateSessionResp0 :: CreateSessionResp where
  "CreateSessionResp0 = \<lparr>code = SUCCEEDED, session = default_Session\<rparr>"

definition UpdateSessionsResp0 :: UpdateSessionsResp where
  "UpdateSessionsResp0 = \<lparr>code = SUCCEEDED, killed_queries = Map.empty, killed_sessions = []\<rparr>"


definition RemoveSessionResp0 :: RemoveSessionResp where
  "RemoveSessionResp0 = \<lparr>code = SUCCEEDED, removed_session_ids = []\<rparr>"

definition ExecResp0 :: Resp where
  "ExecResp0 = \<lparr>code = SUCCEEDED\<rparr>"

subsection \<open>CreateSession\<close>

record CreateSessionReq =
  req_user :: string
  req_graph_addr :: HostAddr
  req_client_ip :: string

definition new_session :: "env \<Rightarrow> CreateSessionReq \<Rightarrow> Session" where
  "new_session e req =
     \<lparr>session_id = fastNowInMicroSec e,
      create_time = fastNowInMicroSec e,
      update_time = fastNowInMicroSec e,
      user_name = req_user req,
      graph_addr = req_graph_addr req,
      client_ip = req_client_ip req,
      queries = []\<rparr>"

definition create_session :: "env \<Rightarrow> store \<Rightarrow> CreateSessionReq \<Rightarrow> store \<times> CreateSessionResp" where
  "create_session e st req =
     (let ret = userExist e (req_user req) in
      if ret \<noteq> SUCCEEDED then (st, handleErrorCode ret CreateSessionResp0)
      else
        let s = new_session e req;
            data = [(session_id s, s)];
            resp = CreateSessionResp0\<lparr>session := s\<rparr>;
            (st', ret') = doSyncPut e st data
        in (st', handleErrorCode ret' resp))"

subsection \<open>UpdateSessions\<close>

text \<open>
  The inner loop (lines 73 to 84) walks the queries of the stored session. For a
  plan id that the snapshot also has and whose stored status is \<open>KILLING\<close>, it sets
  the status of the snapshot's entry and records the stored descriptor.
\<close>

fun set_killing :: "ExecutionPlanID \<Rightarrow> (ExecutionPlanID \<times> QueryDesc) list \<Rightarrow> (ExecutionPlanID \<times> QueryDesc) list" where
  "set_killing epId [] = []"
| "set_killing epId (kq # qs) =
     (if fst kq = epId then (fst kq, (snd kq)\<lparr>status := KILLING\<rparr>) # qs
      else kq # set_killing epId qs)"

definition emplace :: "'k \<Rightarrow> 'v \<Rightarrow> ('k \<times> 'v) list \<Rightarrow> ('k \<times> 'v) list" where
  "emplace k v m = (if map_of m k = None then m @ [(k, v)] else m)"

fun mark_killed ::
  "(ExecutionPlanID \<times> QueryDesc) list \<Rightarrow>
   (ExecutionPlanID \<times> QueryDesc) list \<times> (ExecutionPlanID \<times> QueryDesc) list \<Rightarrow>
   (ExecutionPlanID \<times> QueryDesc) list \<times> (ExecutionPlanID \<times> QueryDesc) list" where
  "mark_killed [] acc = acc"
| "mark_killed (savedQuery # saved) (newQueries, killed) =
     (let epId = fst savedQuery; desc = snd savedQuery in
      if map_of newQueries epId = None then mark_killed saved (newQueries, killed)
      else if status desc = KILLING
        then mark_killed saved (set_killing epId newQueries, emplace epId desc killed)
        else mark_killed saved (newQueries, killed))"

type_synonym update_acc =
  "(SessionID \<times> Session) list \<times>
   (SessionID \<rightharpoonup> (ExecutionPlanID \<times> QueryDesc) list) \<times>
   SessionID list"

text \<open>
  Lines 68 to 96: the body of the outer loop once the lookup did not report
  key-not-found. The accumulator holds \<open>data\<close>, \<open>killedQueries\<close> and
  \<open>killedSessions\<close>.
\<close>

definition merge_session :: "Session \<Rightarrow> Session \<Rightarrow> update_acc \<Rightarrow> update_acc" where
  "merge_session sessionInMeta snapshot acc =
     (case acc of (data, killedQueries, killedSessions) \<Rightarrow>
        let sessionId = session_id snapshot;
            merged = mark_killed (queries sessionInMeta) (queries snapshot, []);
            killedQueries' =
              (if snd merged \<noteq> [] then killedQueries(sessionId \<mapsto> snd merged)
               else killedQueries)
        in if update_time sessionInMeta > update_time snapshot
           then (data, killedQueries', killedSessions)
           else (data @ [(sessionId, snapshot\<lparr>queries := fst merged\<rparr>)],
                 killedQueries', killedSessions))"

text \<open>Lines 54 to 96: one pass of the outer loop.\<close>

definition update_session :: "env \<Rightarrow> store \<Rightarrow> Session \<Rightarrow> update_acc \<Rightarrow> update_acc" where
  "update_session e st snapshot acc =
     (let sessionId = session_id snapshot;
          ret = doGet e st sessionId
      in case ret of
           Inl errCode \<Rightarrow>
             if errCode = E_KEY_NOT_FOUND
             then (case acc of (data, killedQueries, killedSessions) \<Rightarrow>
                     (data, killedQueries, killedSessions @ [sessionId]))
             else merge_session (session_value e ret) snapshot acc
         | Inr v \<Rightarrow> merge_session (session_value e ret) snapshot acc)"

definition reconcile_all :: "env \<Rightarrow> store \<Rightarrow> Session list \<Rightarrow> update_acc" where
  "reconcile_all e st snapshots = fold (update_session e st) snapshots ([], Map.empty, [])"

definition update_sessions :: "env \<Rightarrow> store \<Rightarrow> Session list \<Rightarrow> store \<times> UpdateSessionsResp" where
  "update_sessions e st snapshots =
     (case reconcile_all e st snapshots of (data, killedQueries, killedSessions) \<Rightarrow>
        let (st', ret) = doSyncPut e st data in
        if ret \<noteq> SUCCEEDED then (st', handleErrorCode ret UpdateSessionsResp0)
        else (st', handleErrorCode SUCCEEDED
                     (UpdateSessionsResp0\<lparr>killed_queries := killedQueries,
                                          killed_sessions := killedSessions\<rparr>)))"

subsection \<open>ListSessions and GetSession\<close>




subsection \<open>RemoveSession\<close>

text \<open>
  The loop state is the store, the response (whose code the remove callback sets)
  and \<open>killedSessions\<close>.
\<close>

fun remove_loop ::
  "env \<Rightarrow> SessionID list \<Rightarrow> store \<times> RemoveSessionResp \<times> SessionID list \<Rightarrow>
   store \<times> RemoveSessionResp \<times> SessionID list" where
  "remove_loop e [] acc = acc"
| "remove_loop e (sessionId # rest) (st, resp, killedSessions) =
     (case doGet e st sessionId of
        Inl errCode \<Rightarrow> remove_loop e rest (st, resp, killedSessions)
      | Inr v \<Rightarrow>
          (case asyncRemove e st sessionId of (st', errorCode) \<Rightarrow>
             if errorCode \<noteq> SUCCEEDED
             then remove_loop e rest (st', handleErrorCode errorCode resp, killedSessions)
             else remove_loop e rest
                    (st', handleErrorCode errorCode resp, killedSessions @ [sessionId])))"

definition remove_session :: "env \<Rightarrow> store \<Rightarrow> SessionID list \<Rightarrow> store \<times> RemoveSessionResp" where
  "remove_session e st sessionIds =
     (case remove_loop e sessionIds (st, RemoveSessionResp0, []) of
        (st', resp, killedSessions) \<Rightarrow>
          (st', (handleErrorCode SUCCEEDED resp)\<lparr>removed_session_ids := killedSessions\<rparr>))"

subsection \<open>KillQuery\<close>

text \<open>
  The request maps a session id to a set of plan ids; both are unordered containers
  in the source. The model takes them as lists in iteration order.
\<close>

fun kill_in_session :: "ExecutionPlanID list \<Rightarrow> Session \<Rightarrow> ErrorCode + Session" where
  "kill_in_session [] s = Inr s"
| "kill_in_session (epId # rest) s =
     (if map_of (queries s) epId = None then Inl E_QUERY_NOT_FOUND
      else kill_in_session rest (s\<lparr>queries := set_killing epId (queries s)\<rparr>))"

fun kill_loop ::
  "env \<Rightarrow> store \<Rightarrow> (SessionID \<times> ExecutionPlanID list) list \<Rightarrow> (SessionID \<times> Session) list \<Rightarrow>
   ErrorCode + (SessionID \<times> Session) list" where
  "kill_loop e st [] data = Inr data"
| "kill_loop e st (kv # rest) data =
     (case doGet e st (fst kv) of
        Inl errCode \<Rightarrow>
          Inl (if errCode = E_KEY_NOT_FOUND then E_SESSION_NOT_FOUND else errCode)
      | Inr v \<Rightarrow>
          (case kill_in_session (snd kv) v of
             Inl c \<Rightarrow> Inl c
           | Inr s \<Rightarrow> kill_loop e st rest (data @ [(fst kv, s)])))"

definition kill_query :: "env \<Rightarrow> store \<Rightarrow> (SessionID \<times> ExecutionPlanID list) list \<Rightarrow> store \<times> Resp" where
  "kill_query e st killQueries =
     (case kill_loop e st killQueries [] of
        Inl c \<Rightarrow> (st, handleErrorCode c ExecResp0)
      | Inr data \<Rightarrow>
          (case doSyncPut e st data of (st', putRet) \<Rightarrow> (st', handleErrorCode putRet ExecResp0)))"

subsection \<open>One request of any kind\<close>



subsection \<open>Vocabulary of the properties\<close>

text \<open>A lookup finds a session when the store serves it and the key is present.\<close>

definition found :: "env \<Rightarrow> store \<Rightarrow> SessionID \<Rightarrow> bool" where
  "found e st k = (get_code e k = SUCCEEDED \<and> table st k \<noteq> None)"

text \<open>The mutating requests sent to the store between two states of it.\<close>

definition new_calls :: "store \<Rightarrow> store \<Rightarrow> store_call list" where
  "new_calls st st' = drop (length (issued st)) (issued st')"

text \<open>The status a session records for a plan id.\<close>

definition query_status :: "Session \<Rightarrow> ExecutionPlanID \<Rightarrow> QueryStatus option" where
  "query_status s epId = map_option status (map_of (queries s) epId)"


text \<open>
  Two query tables are related by \<open>status_marked\<close> when they have the same plan ids
  in the same order and each descriptor of the second is the one of the first, either
  as it was or with its status set to \<open>KILLING\<close>.
\<close>

definition status_marked ::
  "(ExecutionPlanID \<times> QueryDesc) list \<Rightarrow> (ExecutionPlanID \<times> QueryDesc) list \<Rightarrow> bool" where
  "status_marked qs qs' =
     list_all2 (\<lambda>a b. fst a = fst b \<and> (snd b = snd a \<or> snd b = (snd a)\<lparr>status := KILLING\<rparr>)) qs qs'"

text \<open>
  What one pass of the UpdateSessions loop reads and produces for a snapshot: the
  session parsed from the lookup (\<open>sessionInMeta\<close>), the snapshot as it is staged, and
  the killed queries found in it.
\<close>

definition session_in_meta :: "env \<Rightarrow> store \<Rightarrow> SessionID \<Rightarrow> Session" where
  "session_in_meta e st k = session_value e (doGet e st k)"

definition staged_snapshot :: "env \<Rightarrow> store \<Rightarrow> Session \<Rightarrow> Session" where
  "staged_snapshot e st snapshot =
     snapshot\<lparr>queries :=
       fst (mark_killed (queries (session_in_meta e st (session_id snapshot))) (queries snapshot, []))\<rparr>"

definition killed_in :: "env \<Rightarrow> store \<Rightarrow> Session \<Rightarrow> (ExecutionPlanID \<times> QueryDesc) list" where
  "killed_in e st snapshot =
     snd (mark_killed (queries (session_in_meta e st (session_id snapshot))) (queries snapshot, []))"

text \<open>A snapshot is stale when the session read from the store is strictly newer.\<close>

definition stale :: "env \<Rightarrow> store \<Rightarrow> Session \<Rightarrow> bool" where
  "stale e st snapshot =
     (update_time (session_in_meta e st (session_id snapshot)) > update_time snapshot)"

text \<open>
  KillQuery: an entry of the request passes when its session is found and has every
  requested plan id; otherwise \<open>entry_code\<close> is the code with which the loop returns at
  it. \<open>killed_session\<close> is the session with the requested plan ids marked, and
  \<open>kill_data\<close> the pairs staged for the batched write.
\<close>

definition entry_ok :: "env \<Rightarrow> store \<Rightarrow> SessionID \<times> ExecutionPlanID list \<Rightarrow> bool" where
  "entry_ok e st kv =
     (case doGet e st (fst kv) of
        Inl c \<Rightarrow> False
      | Inr v \<Rightarrow> list_all (\<lambda>epId. map_of (queries v) epId \<noteq> None) (snd kv))"

definition entry_code :: "env \<Rightarrow> store \<Rightarrow> SessionID \<times> ExecutionPlanID list \<Rightarrow> ErrorCode" where
  "entry_code e st kv =
     (case doGet e st (fst kv) of
        Inl c \<Rightarrow> (if c = E_KEY_NOT_FOUND then E_SESSION_NOT_FOUND else c)
      | Inr v \<Rightarrow> E_QUERY_NOT_FOUND)"

definition killed_session :: "ExecutionPlanID list \<Rightarrow> Session \<Rightarrow> Session" where
  "killed_session epIds s = s\<lparr>queries := fold set_killing epIds (queries s)\<rparr>"

definition kill_data ::
  "env \<Rightarrow> store \<Rightarrow> (SessionID \<times> ExecutionPlanID list) list \<Rightarrow> (SessionID \<times> Session) list" where
  "kill_data e st kvs =
     map (\<lambda>kv. (fst kv, killed_session (snd kv) (session_in_meta e st (fst kv)))) kvs"





subsection \<open>Sample values\<close>

definition env_ok :: env where
  "env_ok =
     \<lparr>userExist = (\<lambda>u. SUCCEEDED), fastNowInMicroSec = 1000,
      get_code = (\<lambda>k. SUCCEEDED), put_code = SUCCEEDED,
      remove_code = (\<lambda>k. SUCCEEDED), prefix_code = SUCCEEDED,
      prefix_scan = (\<lambda>t. []), failed_value = (\<lambda>c. default_Session)\<rparr>"

definition q_running :: QueryDesc where
  "q_running = \<lparr>start_time = 1, status = RUNNING, duration = 0, query = ''GO''\<rparr>"

definition q_killing :: QueryDesc where
  "q_killing = \<lparr>start_time = 1, status = KILLING, duration = 5, query = ''GO''\<rparr>"

definition mk_session :: "SessionID \<Rightarrow> Timestamp \<Rightarrow> (ExecutionPlanID \<times> QueryDesc) list \<Rightarrow> Session" where
  "mk_session sid ut qs =
     \<lparr>session_id = sid, create_time = sid, update_time = ut, user_name = ''root'',
      graph_addr = (''graphd'', 9669), client_ip = ''10.0.0.1'', queries = qs\<rparr>"

definition mk_store :: "(SessionID \<times> Session) list \<Rightarrow> store" where
  "mk_store kvs = \<lparr>table = map_of kvs, issued = []\<rparr>"

definition env_remove3_fails :: env where
  "env_remove3_fails = env_ok\<lparr>remove_code := (\<lambda>k. if k = 3 then E_OTHER 1 else SUCCEEDED)\<rparr>"

definition store_1_3 :: store where
  "store_1_3 = mk_store [(1, mk_session 1 1 []), (3, mk_session 3 3 [])]"

definition env_put_fails :: env where
  "env_put_fails = env_ok\<lparr>put_code := E_OTHER 1\<rparr>"

definition env_get_fails :: env where
  "env_get_fails = env_ok\<lparr>get_code := (\<lambda>k. E_OTHER 7)\<rparr>"

definition store_kill :: store where
  "store_kill = mk_store [(2, mk_session 2 50 [(7, q_killing)])]"

definition snap_gone :: Session where
  "snap_gone = mk_session 1 100 []"

definition snap_run :: Session where
  "snap_run = mk_session 2 100 [(7, q_running)]"

definition snap_stale :: Session where
  "snap_stale = mk_session 2 10 [(7, q_running)]"

definition store_q :: store where
  "store_q = mk_store [(1, mk_session 1 1 [(8, q_running)])]"



definition req_root :: CreateSessionReq where
  "req_root = \<lparr>req_user = ''root'', req_graph_addr = (''graphd'', 9669), req_client_ip = ''10.0.0.1''\<rparr>"

section \<open>Properties\<close>

subsection \<open>Lookups and the loop of RemoveSession\<close>

lemma doGet_found: "(\<exists>v. doGet e st k = Inr v) = found e st k"
  by (auto simp: doGet_def found_def split: option.splits)

lemma doGet_Inr_iff: "doGet e st k = Inr v \<longleftrightarrow> get_code e k = SUCCEEDED \<and> table st k = Some v"
  by (auto simp: doGet_def split: option.splits)

lemma remove_loop_inv:
  "remove_loop e ids (st, resp, ks) = (st', resp', ks') \<Longrightarrow>
   set ks' = set ks \<union> {k \<in> set ids. found e st k \<and> remove_code e k = SUCCEEDED} \<and>
   table st' = (\<lambda>k. if k \<in> set ids \<and> found e st k \<and> remove_code e k = SUCCEEDED then None else table st k) \<and>
   (\<exists>rs. issued st' = issued st @ map Remove rs \<and> set rs = {k \<in> set ids. found e st k})"
proof (induction ids arbitrary: st resp ks)
  case Nil
  then show ?case by simp
next
  case (Cons a ids)
  show ?case
  proof (cases "doGet e st a")
    case (Inl c)
    then have nf: "\<not> found e st a" using doGet_found[of e st a] by auto
    from Cons.prems Inl have "remove_loop e ids (st, resp, ks) = (st', resp', ks')" by simp
    from Cons.IH[OF this] nf show ?thesis by (auto simp: fun_eq_iff)
  next
    case (Inr v)
    then have f: "found e st a" using doGet_found[of e st a] by auto
    show ?thesis
    proof (cases "remove_code e a = SUCCEEDED")
      case True
      let ?st1 = "st\<lparr>table := (table st)(a := None), issued := issued st @ [Remove a]\<rparr>"
      from Cons.prems Inr True
      have "remove_loop e ids (?st1, handleErrorCode SUCCEEDED resp, ks @ [a]) = (st', resp', ks')"
        by (simp add: asyncRemove_def)
      from Cons.IH[OF this] obtain rs where
        1: "set ks' = set (ks @ [a]) \<union> {k \<in> set ids. found e ?st1 k \<and> remove_code e k = SUCCEEDED}"
        and 2: "table st' = (\<lambda>k. if k \<in> set ids \<and> found e ?st1 k \<and> remove_code e k = SUCCEEDED then None else table ?st1 k)"
        and 3: "issued st' = issued ?st1 @ map Remove rs" "set rs = {k \<in> set ids. found e ?st1 k}"
        by blast
      have fd: "\<And>k. found e ?st1 k = (found e st k \<and> k \<noteq> a)" by (auto simp: found_def)
      have "issued st' = issued st @ map Remove (a # rs)" using 3 by simp
      moreover have "set (a # rs) = {k \<in> set (a # ids). found e st k}"
        using 3 fd f by auto
      ultimately have "\<exists>rs. issued st' = issued st @ map Remove rs \<and> set rs = {k \<in> set (a # ids). found e st k}"
        by blast
      moreover have "set ks' = set ks \<union> {k \<in> set (a # ids). found e st k \<and> remove_code e k = SUCCEEDED}"
        using 1 fd f True by auto
      moreover have "table st' = (\<lambda>k. if k \<in> set (a # ids) \<and> found e st k \<and> remove_code e k = SUCCEEDED then None else table st k)"
        using 2 fd f True by (auto simp: fun_eq_iff found_def)
      ultimately show ?thesis by blast
    next
      case False
      let ?st1 = "st\<lparr>issued := issued st @ [Remove a]\<rparr>"
      from Cons.prems Inr False
      have "remove_loop e ids (?st1, handleErrorCode (remove_code e a) resp, ks) = (st', resp', ks')"
        by (simp add: asyncRemove_def)
      from Cons.IH[OF this] obtain rs where
        1: "set ks' = set ks \<union> {k \<in> set ids. found e ?st1 k \<and> remove_code e k = SUCCEEDED}"
        and 2: "table st' = (\<lambda>k. if k \<in> set ids \<and> found e ?st1 k \<and> remove_code e k = SUCCEEDED then None else table ?st1 k)"
        and 3: "issued st' = issued ?st1 @ map Remove rs" "set rs = {k \<in> set ids. found e ?st1 k}"
        by blast
      have fd: "\<And>k. found e ?st1 k = found e st k" by (auto simp: found_def)
      have "issued st' = issued st @ map Remove (a # rs)" using 3 by simp
      moreover have "set (a # rs) = {k \<in> set (a # ids). found e st k}"
        using 3 fd f by auto
      ultimately have "\<exists>rs. issued st' = issued st @ map Remove rs \<and> set rs = {k \<in> set (a # ids). found e st k}"
        by blast
      moreover have "set ks' = set ks \<union> {k \<in> set (a # ids). found e st k \<and> remove_code e k = SUCCEEDED}"
        using 1 fd f False by auto
      moreover have "table st' = (\<lambda>k. if k \<in> set (a # ids) \<and> found e st k \<and> remove_code e k = SUCCEEDED then None else table st k)"
        using 2 fd f False by (auto simp: fun_eq_iff found_def)
      ultimately show ?thesis by blast
    qed
  qed
qed

lemma remove_loop_distinct:
  "remove_loop e ids (st, resp, ks) = (st', resp', ks') \<Longrightarrow>
   distinct ks \<Longrightarrow> (\<forall>k \<in> set ks. table st k = None) \<Longrightarrow> distinct ks' \<and> (\<forall>k \<in> set ks'. table st' k = None)"
proof (induction ids arbitrary: st resp ks)
  case Nil
  then show ?case by simp
next
  case (Cons a ids)
  show ?case
  proof (cases "doGet e st a")
    case (Inl c)
    with Cons.prems have "remove_loop e ids (st, resp, ks) = (st', resp', ks')" by simp
    from Cons.IH[OF this] Cons.prems show ?thesis by simp
  next
    case (Inr v)
    then have tv: "table st a = Some v" by (simp add: doGet_Inr_iff)
    show ?thesis
    proof (cases "remove_code e a = SUCCEEDED")
      case True
      let ?st1 = "st\<lparr>table := (table st)(a := None), issued := issued st @ [Remove a]\<rparr>"
      from Cons.prems Inr True
      have "remove_loop e ids (?st1, handleErrorCode SUCCEEDED resp, ks @ [a]) = (st', resp', ks')"
        by (simp add: asyncRemove_def)
      moreover have "distinct (ks @ [a])" using Cons.prems tv by auto
      moreover have "\<forall>k \<in> set (ks @ [a]). table ?st1 k = None" using Cons.prems by auto
      ultimately show ?thesis using Cons.IH by blast
    next
      case False
      let ?st1 = "st\<lparr>issued := issued st @ [Remove a]\<rparr>"
      from Cons.prems Inr False
      have "remove_loop e ids (?st1, handleErrorCode (remove_code e a) resp, ks) = (st', resp', ks')"
        by (simp add: asyncRemove_def)
      moreover have "\<forall>k \<in> set ks. table ?st1 k = None" using Cons.prems by auto
      ultimately show ?thesis using Cons.IH Cons.prems(2) by blast
    qed
  qed
qed

subsection \<open>CreateSession\<close>

text \<open>
  Claim C7. When the user directory rejects the user, CreateSession answers with the
  directory's code, leaves the store as it was and sends it nothing. Otherwise the new
  session has \<open>create_time = update_time = session_id\<close>, the clock reading; exactly
  one write of the single pair (session id, session) is sent to the store; the
  response carries the full session and the code of that write; and the table holds
  the session under its id when the write succeeded and is unchanged when it failed.
\<close>

theorem create_session_spec:
  "(userExist e (req_user req) \<noteq> SUCCEEDED \<longrightarrow>
      create_session e st req
        = (st, \<lparr>code = userExist e (req_user req), session = default_Session\<rparr>)) \<and>
   (userExist e (req_user req) = SUCCEEDED \<longrightarrow>
      session_id (new_session e req) = fastNowInMicroSec e \<and>
      create_time (new_session e req) = session_id (new_session e req) \<and>
      update_time (new_session e req) = session_id (new_session e req) \<and>
      new_calls st (fst (create_session e st req))
        = [MultiPut [(session_id (new_session e req), new_session e req)]] \<and>
      session (snd (create_session e st req)) = new_session e req \<and>
      code (snd (create_session e st req)) = put_code e \<and>
      table (fst (create_session e st req))
        = (if put_code e = SUCCEEDED
           then (table st)(session_id (new_session e req) \<mapsto> new_session e req)
           else table st))"
  by (simp add: create_session_def handleErrorCode_def CreateSessionResp0_def doSyncPut_def
      new_session_def new_calls_def put_all_def Let_def)

theorem create_session_spec_witness:
  "userExist (env_ok\<lparr>userExist := (\<lambda>u. E_OTHER 18)\<rparr>) (req_user req_root) \<noteq> SUCCEEDED \<and>
   create_session (env_ok\<lparr>userExist := (\<lambda>u. E_OTHER 18)\<rparr>) (mk_store []) req_root
     = (mk_store [], \<lparr>code = E_OTHER 18, session = default_Session\<rparr>) \<and>
   userExist env_ok (req_user req_root) = SUCCEEDED \<and>
   update_time (session (snd (create_session env_ok (mk_store []) req_root))) = 1000 \<and>
   table (fst (create_session env_ok (mk_store []) req_root)) 1000
     = Some (mk_session 1000 1000 [])"
  using create_session_spec [of "env_ok\<lparr>userExist := (\<lambda>u. E_OTHER 18)\<rparr>" req_root "mk_store []"]
    create_session_spec [of env_ok req_root "mk_store []"]
  by (simp add: env_ok_def req_root_def mk_store_def mk_session_def new_session_def)

subsection \<open>RemoveSession\<close>

lemma remove_loop_calls:
  "remove_loop e ids (st, resp, ks) = (st', resp', ks') \<Longrightarrow>
   (\<exists>rs. new_calls st st' = map Remove rs \<and> set rs = {k \<in> set ids. found e st k})"
  using remove_loop_inv[of e ids st resp ks st' resp' ks'] by (auto simp: new_calls_def)

text \<open>
  Claim C8. RemoveSession always answers \<open>SUCCEEDED\<close>. The ids it returns are
  exactly the requested ids whose session was found and whose remove succeeded, each
  once; those sessions are gone from the table and every other entry is untouched, so
  an absent session or a failed remove never stops the rest of the batch.
\<close>

theorem remove_session_best_effort:
  "code (snd (remove_session e st ids)) = SUCCEEDED \<and>
   set (removed_session_ids (snd (remove_session e st ids)))
     = {k \<in> set ids. found e st k \<and> remove_code e k = SUCCEEDED} \<and>
   distinct (removed_session_ids (snd (remove_session e st ids))) \<and>
   table (fst (remove_session e st ids))
     = (\<lambda>k. if k \<in> set (removed_session_ids (snd (remove_session e st ids))) then None else table st k)"
proof -
  obtain st' resp' ks' where L: "remove_loop e ids (st, RemoveSessionResp0, []) = (st', resp', ks')"
    by (metis prod_cases3)
  then have R: "remove_session e st ids = (st', (handleErrorCode SUCCEEDED resp')\<lparr>removed_session_ids := ks'\<rparr>)"
    by (simp add: remove_session_def)
  have c: "code (snd (remove_session e st ids)) = SUCCEEDED"
    by (simp add: R handleErrorCode_def)
  have s: "set ks' = {k \<in> set ids. found e st k \<and> remove_code e k = SUCCEEDED}"
    using remove_loop_inv[OF L] by simp
  have d: "distinct ks'" using remove_loop_distinct[OF L] by simp
  have t: "table st' = (\<lambda>k. if k \<in> set ks' then None else table st k)"
    using remove_loop_inv[OF L] s by (auto simp: fun_eq_iff)
  show ?thesis using c s d t by (simp add: R handleErrorCode_def)
qed

theorem remove_session_best_effort_witness:
  "code (snd (remove_session env_remove3_fails store_1_3 [1, 2, 3, 1])) = SUCCEEDED \<and>
   removed_session_ids (snd (remove_session env_remove3_fails store_1_3 [1, 2, 3, 1])) = [1] \<and>
   {k \<in> set [1, 2, 3, 1]. found env_remove3_fails store_1_3 k
      \<and> remove_code env_remove3_fails k = SUCCEEDED} = {1}"
proof -
  have ev: "removed_session_ids (snd (remove_session env_remove3_fails store_1_3 [1, 2, 3, 1])) = [1]"
    by (simp add: remove_session_def env_remove3_fails_def store_1_3_def env_ok_def mk_store_def
        doGet_def asyncRemove_def handleErrorCode_def RemoveSessionResp0_def)
  from remove_session_best_effort [of env_remove3_fails store_1_3 "[1, 2, 3, 1]"]
  have c: "code (snd (remove_session env_remove3_fails store_1_3 [1, 2, 3, 1])) = SUCCEEDED"
    and s: "set (removed_session_ids (snd (remove_session env_remove3_fails store_1_3 [1, 2, 3, 1])))
      = {k \<in> set [1, 2, 3, 1]. found env_remove3_fails store_1_3 k
           \<and> remove_code env_remove3_fails k = SUCCEEDED}"
    by blast+
  have "{k \<in> set [1, 2, 3, 1]. found env_remove3_fails store_1_3 k
      \<and> remove_code env_remove3_fails k = SUCCEEDED} = set [1]"
    using s [symmetric] by (simp only: ev)
  then have "{k \<in> set [1, 2, 3, 1]. found env_remove3_fails store_1_3 k
      \<and> remove_code env_remove3_fails k = SUCCEEDED} = {1}"
    by (simp only: list.set)
  with c ev show ?thesis by blast
qed

text \<open>
  Claim C10. In RemoveSession an id whose lookup fails, with key-not-found or with any
  other code, is skipped: it is not among the returned ids, no remove of it is sent to
  the store, its table entry is untouched, and the call still answers \<open>SUCCEEDED\<close>.
\<close>

theorem remove_session_skips_failed_lookup:
  "doGet e st k = Inl c \<Longrightarrow>
   k \<notin> set (removed_session_ids (snd (remove_session e st ids))) \<and>
   Remove k \<notin> set (new_calls st (fst (remove_session e st ids))) \<and>
   table (fst (remove_session e st ids)) k = table st k \<and>
   code (snd (remove_session e st ids)) = SUCCEEDED"
proof -
  assume g: "doGet e st k = Inl c"
  then have nf: "\<not> found e st k" using doGet_found[of e st k] by auto
  obtain st' resp' ks' where L: "remove_loop e ids (st, RemoveSessionResp0, []) = (st', resp', ks')"
    by (metis prod_cases3)
  then have R: "remove_session e st ids = (st', (handleErrorCode SUCCEEDED resp')\<lparr>removed_session_ids := ks'\<rparr>)"
    by (simp add: remove_session_def)
  from remove_loop_calls[OF L] obtain rs where
    rs: "new_calls st st' = map Remove rs" "set rs = {k \<in> set ids. found e st k}" by blast
  have 1: "k \<notin> set ks'" using remove_loop_inv[OF L] nf by simp
  have 2: "Remove k \<notin> set (new_calls st st')" using rs nf by auto
  have 3: "table st' k = table st k" using remove_loop_inv[OF L] nf by simp
  show ?thesis using 1 2 3 by (simp add: R handleErrorCode_def)
qed

theorem remove_session_skips_failed_lookup_witness:
  "doGet (env_ok\<lparr>get_code := (\<lambda>k. E_OTHER 7)\<rparr>) (mk_store [(1, mk_session 1 1 [])]) 1 = Inl (E_OTHER 7) \<and>
   1 \<notin> set (removed_session_ids (snd (remove_session (env_ok\<lparr>get_code := (\<lambda>k. E_OTHER 7)\<rparr>)
       (mk_store [(1, mk_session 1 1 [])]) [1]))) \<and>
   table (fst (remove_session (env_ok\<lparr>get_code := (\<lambda>k. E_OTHER 7)\<rparr>)
       (mk_store [(1, mk_session 1 1 [])]) [1])) 1 = Some (mk_session 1 1 []) \<and>
   code (snd (remove_session (env_ok\<lparr>get_code := (\<lambda>k. E_OTHER 7)\<rparr>)
       (mk_store [(1, mk_session 1 1 [])]) [1])) = SUCCEEDED"
proof -
  have g: "doGet (env_ok\<lparr>get_code := (\<lambda>k. E_OTHER 7)\<rparr>) (mk_store [(1, mk_session 1 1 [])]) 1 = Inl (E_OTHER 7)"
    by (simp add: doGet_def env_ok_def)
  show ?thesis
    using g remove_session_skips_failed_lookup [OF g, of "[1]"]
    by (simp add: mk_store_def)
qed

subsection \<open>The inner loop of UpdateSessions\<close>

lemma map_of_set_killing:
  "map_of (set_killing ep qs) k =
     (if k = ep then map_option (\<lambda>q. q\<lparr>status := KILLING\<rparr>) (map_of qs k) else map_of qs k)"
  by (induction qs) auto

lemma status_marked_refl: "status_marked qs qs"
  by (simp add: status_marked_def list_all2_same)

lemma status_marked_trans:
  "status_marked qs qs' \<Longrightarrow> status_marked qs' qs'' \<Longrightarrow> status_marked qs qs''"
proof -
  assume a: "status_marked qs qs'" and b: "status_marked qs' qs''"
  show ?thesis
    unfolding status_marked_def
    by (rule list_all2_trans [OF _ a [unfolded status_marked_def] b [unfolded status_marked_def]])
      auto
qed

lemma status_marked_set_killing: "status_marked qs (set_killing ep qs)"
  by (induction qs) (auto simp: status_marked_def list_all2_same)








subsection \<open>UpdateSessions as a whole\<close>

lemma put_all_eq: "put_all data t = t ++ map_of (rev data)"
proof (induction data arbitrary: t)
  case Nil
  then show ?case by (simp add: put_all_def)
next
  case (Cons kv data)
  have "put_all (kv # data) t = put_all data (t(fst kv \<mapsto> snd kv))"
    by (simp add: put_all_def)
  also have "\<dots> = t(fst kv \<mapsto> snd kv) ++ map_of (rev data)"
    by (rule Cons.IH)
  also have "\<dots> = t ++ map_of (rev (kv # data))"
    by (cases kv) (simp add: map_add_upd_left fun_eq_iff map_add_def split: option.splits)
  finally show ?case .
qed


lemma put_all_other: "k \<notin> fst ` set data \<Longrightarrow> put_all data t k = t k"
  by (simp add: put_all_eq map_add_def map_of_eq_None_iff[THEN iffD2] split: option.splits)

lemma session_in_meta_found:
  "doGet e st k = Inr p \<Longrightarrow> session_in_meta e st k = p"
  by (simp add: session_in_meta_def session_value_def)


lemma merge_session_eq:
  "merge_session (session_in_meta e st (session_id snap)) snap (data, kq, ks) =
     (if stale e st snap then data else data @ [(session_id snap, staged_snapshot e st snap)],
      if killed_in e st snap \<noteq> [] then kq(session_id snap \<mapsto> killed_in e st snap) else kq,
      ks)"
  by (simp add: merge_session_def stale_def staged_snapshot_def killed_in_def Let_def)

lemma update_session_eq:
  "update_session e st snap (data, kq, ks) =
     (if doGet e st (session_id snap) = Inl E_KEY_NOT_FOUND
      then (data, kq, ks @ [session_id snap])
      else (if stale e st snap then data else data @ [(session_id snap, staged_snapshot e st snap)],
            if killed_in e st snap \<noteq> [] then kq(session_id snap \<mapsto> killed_in e st snap) else kq,
            ks))"
proof (cases "doGet e st (session_id snap)")
  case (Inl c)
  then show ?thesis
    using merge_session_eq [of e st snap data kq ks]
    by (simp add: update_session_def Let_def session_in_meta_def)
next
  case (Inr v)
  then show ?thesis
    using merge_session_eq [of e st snap data kq ks]
    by (simp add: update_session_def Let_def session_in_meta_def)
qed

lemma reconcile_all_snoc:
  "reconcile_all e st (snaps @ [snap]) = update_session e st snap (reconcile_all e st snaps)"
  by (simp add: reconcile_all_def)

lemma reconcile_all_eq:
  "reconcile_all e st snaps =
     (map (\<lambda>s. (session_id s, staged_snapshot e st s))
        (filter (\<lambda>s. doGet e st (session_id s) \<noteq> Inl E_KEY_NOT_FOUND \<and> \<not> stale e st s) snaps),
      map_of (rev (map (\<lambda>s. (session_id s, killed_in e st s))
        (filter (\<lambda>s. doGet e st (session_id s) \<noteq> Inl E_KEY_NOT_FOUND \<and> killed_in e st s \<noteq> []) snaps))),
      map session_id (filter (\<lambda>s. doGet e st (session_id s) = Inl E_KEY_NOT_FOUND) snaps))"
proof (induction snaps rule: rev_induct)
  case Nil
  then show ?case by (simp add: reconcile_all_def)
next
  case (snoc x xs)
  show ?case
    unfolding reconcile_all_snoc snoc.IH update_session_eq
    by simp
qed

lemma update_sessions_eq:
  "update_sessions e st snaps =
     (st\<lparr>table := (if put_code e = SUCCEEDED
                    then put_all (fst (reconcile_all e st snaps)) (table st) else table st),
         issued := issued st @ [MultiPut (fst (reconcile_all e st snaps))]\<rparr>,
      if put_code e \<noteq> SUCCEEDED
      then \<lparr>code = put_code e, killed_queries = Map.empty, killed_sessions = []\<rparr>
      else \<lparr>code = SUCCEEDED, killed_queries = fst (snd (reconcile_all e st snaps)),
            killed_sessions = snd (snd (reconcile_all e st snaps))\<rparr>)"
  by (simp add: update_sessions_def doSyncPut_def handleErrorCode_def UpdateSessionsResp0_def
      split: prod.splits)

lemma store_kill_get:
  "doGet env_ok store_kill 2 = Inr (mk_session 2 50 [(7, q_killing)])"
  "doGet env_put_fails store_kill 2 = Inr (mk_session 2 50 [(7, q_killing)])"
  "doGet env_ok store_kill 1 = Inl E_KEY_NOT_FOUND"
  "doGet env_put_fails store_kill 1 = Inl E_KEY_NOT_FOUND"
  "doGet env_get_fails store_kill 2 = Inl (E_OTHER 7)"
  by (simp_all add: doGet_def env_ok_def env_put_fails_def env_get_fails_def store_kill_def mk_store_def)

lemma sample_ids:
  "session_id snap_gone = 1" "session_id snap_run = 2" "session_id snap_stale = 2"
  "queries snap_run = [(7, q_running)]" "queries snap_stale = [(7, q_running)]"
  "update_time snap_run = 100" "update_time snap_stale = 10"
  "queries (mk_session k t qs) = qs" "update_time (mk_session k t qs) = t"
  "session_id (mk_session k t qs) = k"
  "status q_killing = KILLING" "status q_running = RUNNING"
  by (simp_all add: snap_gone_def snap_run_def snap_stale_def mk_session_def q_killing_def q_running_def)

lemma sample_killed:
  "killed_in env_ok store_kill snap_run = [(7, q_killing)]"
  "killed_in env_put_fails store_kill snap_run = [(7, q_killing)]"
  "killed_in env_ok store_kill snap_stale = [(7, q_killing)]"
  "killed_in env_put_fails store_kill snap_stale = [(7, q_killing)]"
  by (simp_all add: killed_in_def session_in_meta_def session_value_def store_kill_get sample_ids
      emplace_def)


text \<open>
  Claim C1, as amended. When the final batched write of UpdateSessions fails, the call
  answers with the code of the write, the table is unchanged, and the response carries
  neither killed sessions nor killed queries: the processor returns before it assigns
  them. When the write succeeds the response carries the killed sessions and killed
  queries that the reconciliation found.
\<close>

theorem update_sessions_write_outcome:
  "(put_code e \<noteq> SUCCEEDED \<longrightarrow>
      code (snd (update_sessions e st snaps)) = put_code e \<and>
      killed_sessions (snd (update_sessions e st snaps)) = [] \<and>
      killed_queries (snd (update_sessions e st snaps)) = Map.empty \<and>
      table (fst (update_sessions e st snaps)) = table st) \<and>
   (put_code e = SUCCEEDED \<longrightarrow>
      code (snd (update_sessions e st snaps)) = SUCCEEDED \<and>
      killed_sessions (snd (update_sessions e st snaps)) = snd (snd (reconcile_all e st snaps)) \<and>
      killed_queries (snd (update_sessions e st snaps)) = fst (snd (reconcile_all e st snaps)))"
proof (cases "put_code e = SUCCEEDED")
  case True
  obtain data kq ks where acc: "reconcile_all e st snaps = (data, kq, ks)"
    by (metis prod_cases3)
  from True have "snd (update_sessions e st snaps)
      = \<lparr>code = SUCCEEDED, killed_queries = kq, killed_sessions = ks\<rparr>"
    by (simp add: update_sessions_def acc doSyncPut_def handleErrorCode_def UpdateSessionsResp0_def)
  with True acc show ?thesis by simp
next
  case False
  obtain data kq ks where acc: "reconcile_all e st snaps = (data, kq, ks)"
    by (metis prod_cases3)
  from False have "update_sessions e st snaps
      = (st\<lparr>issued := issued st @ [MultiPut data]\<rparr>,
         \<lparr>code = put_code e, killed_queries = Map.empty, killed_sessions = []\<rparr>)"
    by (simp add: update_sessions_def acc doSyncPut_def handleErrorCode_def UpdateSessionsResp0_def)
  with False show ?thesis by simp
qed

theorem update_sessions_write_outcome_witness:
  "put_code env_put_fails \<noteq> SUCCEEDED \<and>
   code (snd (update_sessions env_put_fails store_kill [snap_gone, snap_run])) = E_OTHER 1 \<and>
   killed_sessions (snd (update_sessions env_put_fails store_kill [snap_gone, snap_run])) = [] \<and>
   put_code env_ok = SUCCEEDED \<and>
   killed_sessions (snd (update_sessions env_ok store_kill [snap_gone, snap_run])) = [1]"
proof -
  have f: "put_code env_put_fails = E_OTHER 1" and o: "put_code env_ok = SUCCEEDED"
    by (simp_all add: env_put_fails_def env_ok_def)
  have r: "snd (snd (reconcile_all env_ok store_kill [snap_gone, snap_run])) = [1]"
    by (simp add: reconcile_all_eq store_kill_get sample_ids)
  show ?thesis
    using update_sessions_write_outcome [of env_put_fails store_kill "[snap_gone, snap_run]"]
      update_sessions_write_outcome [of env_ok store_kill "[snap_gone, snap_run]"]
    by (simp add: f o r)
qed

text \<open>
  The claim as stated fails: with a failing write, the reconciliation of two snapshots
  finds a removed session and a killed query, and the response has neither.
\<close>

theorem update_sessions_write_failure_drops_results:
  "put_code env_put_fails \<noteq> SUCCEEDED \<and>
   snd (snd (reconcile_all env_put_fails store_kill [snap_gone, snap_run])) = [1] \<and>
   fst (snd (reconcile_all env_put_fails store_kill [snap_gone, snap_run])) 2 = Some [(7, q_killing)] \<and>
   code (snd (update_sessions env_put_fails store_kill [snap_gone, snap_run])) = E_OTHER 1 \<and>
   killed_sessions (snd (update_sessions env_put_fails store_kill [snap_gone, snap_run])) = [] \<and>
   killed_queries (snd (update_sessions env_put_fails store_kill [snap_gone, snap_run])) 2 = None"
proof -
  have f: "put_code env_put_fails = E_OTHER 1"
    by (simp add: env_put_fails_def env_ok_def)
  show ?thesis
    by (simp add: update_sessions_eq f reconcile_all_eq store_kill_get sample_ids sample_killed)
qed

lemma reconcile_all_data:
  "fst (reconcile_all e st snaps) =
     map (\<lambda>s. (session_id s, staged_snapshot e st s))
       (filter (\<lambda>s. doGet e st (session_id s) \<noteq> Inl E_KEY_NOT_FOUND \<and> \<not> stale e st s) snaps)"
  by (simp add: reconcile_all_eq)

lemma reconcile_all_killed_queries:
  "fst (snd (reconcile_all e st snaps)) =
     map_of (rev (map (\<lambda>s. (session_id s, killed_in e st s))
       (filter (\<lambda>s. doGet e st (session_id s) \<noteq> Inl E_KEY_NOT_FOUND \<and> killed_in e st s \<noteq> []) snaps)))"
  by (simp add: reconcile_all_eq)

lemma reconcile_all_killed_sessions:
  "snd (snd (reconcile_all e st snaps)) =
     map session_id (filter (\<lambda>s. doGet e st (session_id s) = Inl E_KEY_NOT_FOUND) snaps)"
  by (simp add: reconcile_all_eq)

lemma update_sessions_code: "code (snd (update_sessions e st snaps)) = put_code e"
  by (simp add: update_sessions_eq)

lemma update_sessions_table:
  "table (fst (update_sessions e st snaps)) =
     (if put_code e = SUCCEEDED then put_all (fst (reconcile_all e st snaps)) (table st)
      else table st)"
  by (simp add: update_sessions_eq)

lemma update_sessions_killed_sessions_subset:
  "set (killed_sessions (snd (update_sessions e st snaps)))
     \<subseteq> set (snd (snd (reconcile_all e st snaps)))"
  by (simp add: update_sessions_eq)

lemma update_sessions_not_found:
  assumes "snap \<in> set snaps" and "doGet e st (session_id snap) = Inl E_KEY_NOT_FOUND"
  shows "session_id snap \<in> set (snd (snd (reconcile_all e st snaps)))"
    and "session_id snap \<notin> fst ` set (fst (reconcile_all e st snaps))"
    and "table (fst (update_sessions e st snaps)) (session_id snap) = table st (session_id snap)"
proof -
  show 1: "session_id snap \<in> set (snd (snd (reconcile_all e st snaps)))"
    using assms by (auto simp: reconcile_all_killed_sessions)
  show 2: "session_id snap \<notin> fst ` set (fst (reconcile_all e st snaps))"
    using assms(2) by (auto simp: reconcile_all_data)
  show "table (fst (update_sessions e st snaps)) (session_id snap) = table st (session_id snap)"
    using put_all_other [OF 2] by (simp add: update_sessions_table)
qed

lemma update_sessions_other_error:
  assumes "doGet e st (session_id snap) = Inl c" and "c \<noteq> E_KEY_NOT_FOUND"
  shows "update_session e st snap (data, kq, ks) = merge_session (failed_value e c) snap (data, kq, ks)"
    and "snd (snd (update_session e st snap (data, kq, ks))) = ks"
    and "session_id snap \<notin> set (snd (snd (reconcile_all e st snaps)))"
proof -
  show "update_session e st snap (data, kq, ks) = merge_session (failed_value e c) snap (data, kq, ks)"
    using assms by (simp add: update_session_def session_value_def)
  show "snd (snd (update_session e st snap (data, kq, ks))) = ks"
    using assms by (simp add: update_session_eq)
  show "session_id snap \<notin> set (snd (snd (reconcile_all e st snaps)))"
    using assms by (auto simp: reconcile_all_killed_sessions)
qed

text \<open>
  Claim C5. For a snapshot of an UpdateSessions call whose lookup reports key-not-found,
  the pass only appends the session id to the killed sessions: nothing is staged for
  it, its table entry is untouched, and the id is returned when the write succeeds.
  When the lookup fails with any other code, the pass is the merge of lines 68 to 96 run
  on the value read from the failed lookup; the id is not added to the killed sessions,
  and the code of the response is the code of the batched write, not the lookup's.
\<close>

theorem update_sessions_lookup_failure:
  assumes "snap \<in> set snaps"
  shows
    "(doGet e st (session_id snap) = Inl E_KEY_NOT_FOUND \<longrightarrow>
        update_session e st snap (data, kq, ks) = (data, kq, ks @ [session_id snap]) \<and>
        session_id snap \<in> set (snd (snd (reconcile_all e st snaps))) \<and>
        session_id snap \<notin> fst ` set (fst (reconcile_all e st snaps)) \<and>
        table (fst (update_sessions e st snaps)) (session_id snap) = table st (session_id snap) \<and>
        (put_code e = SUCCEEDED \<longrightarrow>
           session_id snap \<in> set (killed_sessions (snd (update_sessions e st snaps))))) \<and>
     (doGet e st (session_id snap) = Inl c \<and> c \<noteq> E_KEY_NOT_FOUND \<longrightarrow>
        update_session e st snap (data, kq, ks)
          = merge_session (failed_value e c) snap (data, kq, ks) \<and>
        snd (snd (update_session e st snap (data, kq, ks))) = ks \<and>
        session_id snap \<notin> set (snd (snd (reconcile_all e st snaps))) \<and>
        session_id snap \<notin> set (killed_sessions (snd (update_sessions e st snaps))) \<and>
        code (snd (update_sessions e st snaps)) = put_code e)"
proof (intro conjI impI)
  assume nf: "doGet e st (session_id snap) = Inl E_KEY_NOT_FOUND"
  show "update_session e st snap (data, kq, ks) = (data, kq, ks @ [session_id snap])"
    using nf by (simp add: update_session_eq)
  show in_found: "session_id snap \<in> set (snd (snd (reconcile_all e st snaps)))"
    by (rule update_sessions_not_found(1) [OF assms nf])
  show "session_id snap \<notin> fst ` set (fst (reconcile_all e st snaps))"
    by (rule update_sessions_not_found(2) [OF assms nf])
  show "table (fst (update_sessions e st snaps)) (session_id snap) = table st (session_id snap)"
    by (rule update_sessions_not_found(3) [OF assms nf])
  show "session_id snap \<in> set (killed_sessions (snd (update_sessions e st snaps)))"
    if "put_code e = SUCCEEDED"
    using that in_found by (simp add: update_sessions_eq)
next
  assume oe: "doGet e st (session_id snap) = Inl c \<and> c \<noteq> E_KEY_NOT_FOUND"
  then have g: "doGet e st (session_id snap) = Inl c" and c: "c \<noteq> E_KEY_NOT_FOUND" by simp_all
  show "update_session e st snap (data, kq, ks) = merge_session (failed_value e c) snap (data, kq, ks)"
    by (rule update_sessions_other_error(1) [OF g c])
  show "snd (snd (update_session e st snap (data, kq, ks))) = ks"
    by (rule update_sessions_other_error(2) [OF g c])
  show nin: "session_id snap \<notin> set (snd (snd (reconcile_all e st snaps)))"
    by (rule update_sessions_other_error(3) [OF g c])
  show "session_id snap \<notin> set (killed_sessions (snd (update_sessions e st snaps)))"
    using nin update_sessions_killed_sessions_subset [of e st snaps] by blast
  show "code (snd (update_sessions e st snaps)) = put_code e"
    by (rule update_sessions_code)
qed

theorem update_sessions_lookup_failure_witness:
  "snap_gone \<in> set [snap_gone, snap_run] \<and>
   doGet env_ok store_kill (session_id snap_gone) = Inl E_KEY_NOT_FOUND \<and>
   session_id snap_gone \<in> set (killed_sessions (snd (update_sessions env_ok store_kill [snap_gone, snap_run]))) \<and>
   snap_run \<in> set [snap_run] \<and>
   doGet env_get_fails store_kill (session_id snap_run) = Inl (E_OTHER 7) \<and>
   session_id snap_run \<notin> set (killed_sessions (snd (update_sessions env_get_fails store_kill [snap_run]))) \<and>
   code (snd (update_sessions env_get_fails store_kill [snap_run])) = SUCCEEDED"
proof -
  have m1: "snap_gone \<in> set [snap_gone, snap_run]" and m2: "snap_run \<in> set [snap_run]"
    by simp_all
  have g1: "doGet env_ok store_kill (session_id snap_gone) = Inl E_KEY_NOT_FOUND"
    and g2: "doGet env_get_fails store_kill (session_id snap_run) = Inl (E_OTHER 7)"
    by (simp_all add: sample_ids store_kill_get)
  have p: "put_code env_ok = SUCCEEDED" "put_code env_get_fails = SUCCEEDED"
    by (simp_all add: env_ok_def env_get_fails_def)
  show ?thesis
    using update_sessions_lookup_failure [OF m1, of env_ok store_kill "[]" Map.empty "[]" E_KEY_NOT_FOUND]
      update_sessions_lookup_failure [OF m2, of env_get_fails store_kill "[]" Map.empty "[]" "E_OTHER 7"]
      g1 g2 p m1 m2
    by simp
qed

subsection \<open>Killed queries and staged snapshots\<close>












lemma stale_found:
  "doGet e st (session_id snap) = Inr p \<Longrightarrow> stale e st snap = (update_time p > update_time snap)"
  by (simp add: stale_def session_in_meta_found)

lemma killed_in_found:
  "doGet e st (session_id snap) = Inr p \<Longrightarrow>
   killed_in e st snap = snd (mark_killed (queries p) (queries snap, []))"
  by (simp add: killed_in_def session_in_meta_found)

lemma stale_not_staged:
  assumes "doGet e st sid = Inr p"
    and "\<forall>s \<in> set snaps. session_id s = sid \<longrightarrow> update_time p > update_time s"
  shows "sid \<notin> fst ` set (fst (reconcile_all e st snaps))"
proof
  assume "sid \<in> fst ` set (fst (reconcile_all e st snaps))"
  then obtain s where s: "s \<in> set snaps" "session_id s = sid" "\<not> stale e st s"
    by (auto simp: reconcile_all_data)
  from assms(1) s(2) have "doGet e st (session_id s) = Inr p" by simp
  from stale_found [OF this] s(3) have "\<not> update_time p > update_time s" by simp
  with assms(2) s(1,2) show False by blast
qed

lemma killed_queries_last:
  assumes "snaps = pre @ snap # post"
    and "session_id snap \<notin> session_id ` set post"
    and "doGet e st (session_id snap) \<noteq> Inl E_KEY_NOT_FOUND"
    and "killed_in e st snap \<noteq> []"
  shows "fst (snd (reconcile_all e st snaps)) (session_id snap) = Some (killed_in e st snap)"
proof -
  let ?P = "\<lambda>s. doGet e st (session_id s) \<noteq> Inl E_KEY_NOT_FOUND \<and> killed_in e st s \<noteq> []"
  let ?f = "\<lambda>s. (session_id s, killed_in e st s)"
  have none: "map_of (rev (map ?f (filter ?P post))) (session_id snap) = None"
    using assms(2) by (auto simp: map_of_eq_None_iff)
  have "rev (map ?f (filter ?P snaps))
      = rev (map ?f (filter ?P post)) @ ?f snap # rev (map ?f (filter ?P pre))"
    using assms(1,3,4) by simp
  then have "map_of (rev (map ?f (filter ?P snaps))) (session_id snap) = Some (killed_in e st snap)"
    using none by (simp add: map_add_def)
  then show ?thesis by (simp only: reconcile_all_killed_queries)
qed

text \<open>
  Claim C4, as amended. Take a snapshot of an UpdateSessions call whose lookup returns
  the persisted session, with a persisted \<open>update_time\<close> strictly greater than the
  snapshot's. The pass stages nothing for it; it records the killed queries found for
  it, when there are any, under the session id, in place of an earlier record for that
  id. If every snapshot of that session in the call is stale in this way, the table
  entry of the session is unchanged by the call. The killed queries are returned in the
  response when the batched write succeeds and no later snapshot of the call has the
  same session id.
\<close>

theorem update_sessions_stale_snapshot:
  assumes "doGet e st (session_id snap) = Inr p" and "update_time p > update_time snap"
  shows
    "update_session e st snap (data, kq, ks)
       = (data,
          (if killed_in e st snap \<noteq> [] then kq(session_id snap \<mapsto> killed_in e st snap) else kq),
          ks) \<and>
     killed_in e st snap = snd (mark_killed (queries p) (queries snap, [])) \<and>
     ((\<forall>s \<in> set snaps. session_id s = session_id snap \<longrightarrow> update_time p > update_time s) \<longrightarrow>
        table (fst (update_sessions e st snaps)) (session_id snap) = Some p) \<and>
     (put_code e = SUCCEEDED \<and> killed_in e st snap \<noteq> [] \<and> snaps = pre @ snap # post \<and>
      session_id snap \<notin> session_id ` set post \<longrightarrow>
        killed_queries (snd (update_sessions e st snaps)) (session_id snap)
          = Some (killed_in e st snap))"
proof (intro conjI impI)
  have st: "stale e st snap" using assms by (simp add: stale_found)
  have nk: "doGet e st (session_id snap) \<noteq> Inl E_KEY_NOT_FOUND" using assms(1) by simp
  show "update_session e st snap (data, kq, ks)
       = (data,
          (if killed_in e st snap \<noteq> [] then kq(session_id snap \<mapsto> killed_in e st snap) else kq),
          ks)"
    using st nk by (simp add: update_session_eq)
  show "killed_in e st snap = snd (mark_killed (queries p) (queries snap, []))"
    by (rule killed_in_found [OF assms(1)])
  show "table (fst (update_sessions e st snaps)) (session_id snap) = Some p"
    if a: "\<forall>s \<in> set snaps. session_id s = session_id snap \<longrightarrow> update_time p > update_time s"
  proof -
    have tp: "table st (session_id snap) = Some p"
      using assms(1) by (simp add: doGet_Inr_iff)
    have "session_id snap \<notin> fst ` set (fst (reconcile_all e st snaps))"
      by (rule stale_not_staged [OF assms(1) a])
    from put_all_other [OF this] tp show ?thesis
      by (simp add: update_sessions_table)
  qed
  show "killed_queries (snd (update_sessions e st snaps)) (session_id snap)
          = Some (killed_in e st snap)"
    if b: "put_code e = SUCCEEDED \<and> killed_in e st snap \<noteq> [] \<and> snaps = pre @ snap # post \<and>
      session_id snap \<notin> session_id ` set post"
  proof -
    from b have "fst (snd (reconcile_all e st snaps)) (session_id snap) = Some (killed_in e st snap)"
      using killed_queries_last [of snaps pre snap post e st] nk by blast
    with b show ?thesis by (simp add: update_sessions_eq)
  qed
qed

theorem update_sessions_stale_snapshot_witness:
  "doGet env_ok store_kill (session_id snap_stale) = Inr (mk_session 2 50 [(7, q_killing)]) \<and>
   update_time (mk_session 2 50 [(7, q_killing)]) > update_time snap_stale \<and>
   killed_in env_ok store_kill snap_stale = [(7, q_killing)] \<and>
   table (fst (update_sessions env_ok store_kill [snap_stale])) (session_id snap_stale)
     = Some (mk_session 2 50 [(7, q_killing)]) \<and>
   killed_queries (snd (update_sessions env_ok store_kill [snap_stale])) (session_id snap_stale)
     = Some [(7, q_killing)]"
proof -
  have g: "doGet env_ok store_kill (session_id snap_stale) = Inr (mk_session 2 50 [(7, q_killing)])"
    by (simp add: sample_ids store_kill_get)
  have u: "update_time (mk_session 2 50 [(7, q_killing)]) > update_time snap_stale"
    by (simp add: sample_ids)
  have k: "killed_in env_ok store_kill snap_stale = [(7, q_killing)]"
    by (rule sample_killed)
  have p: "put_code env_ok = SUCCEEDED" by (simp add: env_ok_def)
  note T = update_sessions_stale_snapshot [OF g u, of "[]" Map.empty "[]" "[snap_stale]" "[]" "[]"]
  have a: "\<forall>s \<in> set [snap_stale]. session_id s = session_id snap_stale \<longrightarrow>
      update_time (mk_session 2 50 [(7, q_killing)]) > update_time s"
    using u by simp
  have b: "put_code env_ok = SUCCEEDED \<and> killed_in env_ok store_kill snap_stale \<noteq> [] \<and>
      [snap_stale] = [] @ snap_stale # [] \<and> session_id snap_stale \<notin> session_id ` set []"
    using p k by simp
  from T [THEN conjunct2, THEN conjunct2, THEN conjunct1, THEN mp, OF a]
  have t: "table (fst (update_sessions env_ok store_kill [snap_stale])) (session_id snap_stale)
     = Some (mk_session 2 50 [(7, q_killing)])" .
  from T [THEN conjunct2, THEN conjunct2, THEN conjunct2, THEN mp, OF b]
  have q: "killed_queries (snd (update_sessions env_ok store_kill [snap_stale])) (session_id snap_stale)
     = Some (killed_in env_ok store_kill snap_stale)" .
  show ?thesis
    using g u k t q by (simp only: simp_thms)
qed

text \<open>
  The claim as stated fails: for a stale snapshot with a killed query, a failing write
  leaves the response without that query.
\<close>

theorem update_sessions_stale_killed_not_returned:
  "doGet env_put_fails store_kill (session_id snap_stale) = Inr (mk_session 2 50 [(7, q_killing)]) \<and>
   update_time (mk_session 2 50 [(7, q_killing)]) > update_time snap_stale \<and>
   killed_in env_put_fails store_kill snap_stale = [(7, q_killing)] \<and>
   killed_queries (snd (update_sessions env_put_fails store_kill [snap_stale])) (session_id snap_stale)
     = None"
proof -
  have f: "put_code env_put_fails = E_OTHER 1"
    by (simp add: env_put_fails_def env_ok_def)
  show ?thesis
    by (simp add: update_sessions_eq f store_kill_get sample_ids sample_killed)
qed

subsection \<open>KillQuery\<close>

lemma map_of_fold_set_killing:
  "map_of (fold set_killing eps qs) k =
     (if k \<in> set eps then map_option (\<lambda>q. q\<lparr>status := KILLING\<rparr>) (map_of qs k) else map_of qs k)"
proof (induction eps arbitrary: qs)
  case Nil
  then show ?case by simp
next
  case (Cons ep eps)
  show ?case
    by (simp add: Cons.IH map_of_set_killing option.map_comp comp_def)
qed

lemma map_of_set_killing_Some:
  "(\<exists>y. map_of (set_killing ep qs) k = Some y) = (\<exists>y. map_of qs k = Some y)"
  by (auto simp: map_of_set_killing)

lemma status_marked_fold_set_killing: "status_marked qs (fold set_killing eps qs)"
proof (induction eps arbitrary: qs)
  case Nil
  then show ?case by (simp add: status_marked_refl)
next
  case (Cons ep eps)
  show ?case
    using status_marked_trans [OF status_marked_set_killing Cons.IH] by simp
qed

lemma kill_in_session_eq:
  "kill_in_session eps s =
     (if list_all (\<lambda>epId. map_of (queries s) epId \<noteq> None) eps
      then Inr (killed_session eps s) else Inl E_QUERY_NOT_FOUND)"
proof (induction eps arbitrary: s)
  case Nil
  then show ?case by (simp add: killed_session_def)
next
  case (Cons ep eps)
  show ?case
    by (simp add: Cons.IH killed_session_def map_of_set_killing_Some)
qed

lemma kill_loop_eq:
  "kill_loop e st kvs data =
     (case find (\<lambda>kv. \<not> entry_ok e st kv) kvs of
        Some kv \<Rightarrow> Inl (entry_code e st kv)
      | None \<Rightarrow> Inr (data @ kill_data e st kvs))"
proof (induction kvs arbitrary: data)
  case Nil
  then show ?case by (simp add: kill_data_def)
next
  case (Cons kv kvs)
  show ?case
  proof (cases "doGet e st (fst kv)")
    case (Inl c)
    then show ?thesis by (simp add: entry_ok_def entry_code_def)
  next
    case (Inr v)
    then have sim: "session_in_meta e st (fst kv) = v" by (rule session_in_meta_found)
    show ?thesis
    proof (cases "list_all (\<lambda>epId. map_of (queries v) epId \<noteq> None) (snd kv)")
      case True
      then have ok: "entry_ok e st kv" using Inr by (simp add: entry_ok_def)
      show ?thesis
        using Inr True ok
        by (simp add: kill_in_session_eq Cons.IH kill_data_def sim split: option.splits)
    next
      case False
      then have nok: "\<not> entry_ok e st kv" using Inr by (simp add: entry_ok_def)
      show ?thesis
        using Inr False nok by (simp add: kill_in_session_eq entry_code_def)
    qed
  qed
qed

lemma kill_query_failed:
  "find (\<lambda>kv. \<not> entry_ok e st kv) kvs = Some kv \<Longrightarrow>
   kill_query e st kvs = (st, \<lparr>code = entry_code e st kv\<rparr>)"
  by (simp add: kill_query_def kill_loop_eq handleErrorCode_def ExecResp0_def)

lemma kill_query_passed:
  "find (\<lambda>kv. \<not> entry_ok e st kv) kvs = None \<Longrightarrow>
   kill_query e st kvs =
     (st\<lparr>table := (if put_code e = SUCCEEDED then put_all (kill_data e st kvs) (table st)
                    else table st),
         issued := issued st @ [MultiPut (kill_data e st kvs)]\<rparr>,
      \<lparr>code = put_code e\<rparr>)"
  by (simp add: kill_query_def kill_loop_eq handleErrorCode_def ExecResp0_def doSyncPut_def)

lemma find_failed_entry:
  "find (\<lambda>kv. \<not> entry_ok e st kv) kvs = Some kv \<Longrightarrow> \<not> entry_ok e st kv \<and> kv \<in> set kvs"
  by (auto simp: find_Some_iff)

lemma find_all_passed:
  "find (\<lambda>kv. \<not> entry_ok e st kv) kvs = None \<Longrightarrow> kv \<in> set kvs \<Longrightarrow> entry_ok e st kv"
  by (cases kv) (auto simp: find_None_iff)

lemma entry_ok_found:
  "entry_ok e st kv \<Longrightarrow>
   \<exists>p. doGet e st (fst kv) = Inr p \<and> table st (fst kv) = Some p \<and> session_in_meta e st (fst kv) = p \<and>
       (\<forall>ep \<in> set (snd kv). map_of (queries p) ep \<noteq> None)"
  by (cases "doGet e st (fst kv)")
    (auto simp: entry_ok_def doGet_Inr_iff session_in_meta_found list_all_iff)

lemma killed_session_status:
  "ep \<in> set eps \<Longrightarrow> map_of (queries p) ep \<noteq> None \<Longrightarrow>
   query_status (killed_session eps p) ep = Some KILLING"
  by (auto simp: query_status_def killed_session_def map_of_fold_set_killing)

lemma put_all_distinct:
  "distinct (map fst data) \<Longrightarrow> (k, v) \<in> set data \<Longrightarrow> put_all data t k = Some v"
proof -
  assume d: "distinct (map fst data)" and m: "(k, v) \<in> set data"
  have "distinct (map fst (rev data))" using d by (simp add: rev_map [symmetric])
  moreover have "(k, v) \<in> set (rev data)" using m by simp
  ultimately have "map_of (rev data) k = Some v" by (rule map_of_is_SomeI)
  then show ?thesis by (simp add: put_all_eq map_add_def)
qed

lemma store_q_get:
  "doGet env_ok store_q 1 = Inr (mk_session 1 1 [(8, q_running)])"
  "doGet env_ok store_q 2 = Inl E_KEY_NOT_FOUND"
  by (simp_all add: doGet_def env_ok_def store_q_def mk_store_def)

lemma store_q_entries:
  "\<not> entry_ok env_ok store_q (1, [7])" "\<not> entry_ok env_ok store_q (2, [9])"
  "entry_ok env_ok store_q (1, [8])"
  "entry_code env_ok store_q (1, [7]) = E_QUERY_NOT_FOUND"
  "entry_code env_ok store_q (2, [9]) = E_SESSION_NOT_FOUND"
  by (simp_all add: entry_ok_def entry_code_def store_q_get sample_ids)

text \<open>
  Claim C3, as amended. KillQuery walks the entries of the request in iteration order
  and returns at the first entry that fails: with \<open>E_SESSION_NOT_FOUND\<close> when the lookup
  of its session reports key-not-found, with the lookup's own code when the lookup fails
  otherwise, and with \<open>E_QUERY_NOT_FOUND\<close> when the session is found and lacks one of
  the requested plan ids. In each of these cases the store is exactly as before: no
  write is sent and the table is unchanged. When no entry fails, one batched write is
  sent that carries, for each entry, the stored session with the requested plan ids
  marked; the response has the code of that write; and when the write succeeds and the
  session ids of the request are distinct, every requested plan id has status
  \<open>KILLING\<close> in the table.
\<close>

theorem kill_query_fail_fast:
  "(find (\<lambda>kv. \<not> entry_ok e st kv) kvs = Some kv \<longrightarrow>
      kv \<in> set kvs \<and>
      kill_query e st kvs = (st, \<lparr>code = entry_code e st kv\<rparr>) \<and>
      (doGet e st (fst kv) = Inl E_KEY_NOT_FOUND \<longrightarrow>
         code (snd (kill_query e st kvs)) = E_SESSION_NOT_FOUND) \<and>
      (doGet e st (fst kv) = Inl c \<and> c \<noteq> E_KEY_NOT_FOUND \<longrightarrow>
         code (snd (kill_query e st kvs)) = c) \<and>
      (doGet e st (fst kv) = Inr v \<longrightarrow>
         code (snd (kill_query e st kvs)) = E_QUERY_NOT_FOUND \<and>
         (\<exists>ep \<in> set (snd kv). map_of (queries v) ep = None))) \<and>
   (find (\<lambda>kv. \<not> entry_ok e st kv) kvs = None \<longrightarrow>
      new_calls st (fst (kill_query e st kvs)) = [MultiPut (kill_data e st kvs)] \<and>
      code (snd (kill_query e st kvs)) = put_code e \<and>
      table (fst (kill_query e st kvs))
        = (if put_code e = SUCCEEDED then put_all (kill_data e st kvs) (table st) else table st) \<and>
      (\<forall>kv' \<in> set kvs. \<exists>p. table st (fst kv') = Some p \<and>
         (fst kv', killed_session (snd kv') p) \<in> set (kill_data e st kvs) \<and>
         status_marked (queries p) (queries (killed_session (snd kv') p)) \<and>
         (\<forall>ep \<in> set (snd kv'). query_status (killed_session (snd kv') p) ep = Some KILLING) \<and>
         (put_code e = SUCCEEDED \<and> distinct (map fst kvs) \<longrightarrow>
            table (fst (kill_query e st kvs)) (fst kv') = Some (killed_session (snd kv') p))))"
proof (intro conjI impI)
  assume f: "find (\<lambda>kv. \<not> entry_ok e st kv) kvs = Some kv"
  show "kv \<in> set kvs" using find_failed_entry [OF f] by simp
  show q: "kill_query e st kvs = (st, \<lparr>code = entry_code e st kv\<rparr>)"
    by (rule kill_query_failed [OF f])
  show "code (snd (kill_query e st kvs)) = E_SESSION_NOT_FOUND"
    if "doGet e st (fst kv) = Inl E_KEY_NOT_FOUND"
    using that by (simp add: q entry_code_def)
  show "code (snd (kill_query e st kvs)) = c"
    if "doGet e st (fst kv) = Inl c \<and> c \<noteq> E_KEY_NOT_FOUND"
    using that by (simp add: q entry_code_def)
  show "code (snd (kill_query e st kvs)) = E_QUERY_NOT_FOUND"
    if "doGet e st (fst kv) = Inr v"
    using that by (simp add: q entry_code_def)
  show "\<exists>ep \<in> set (snd kv). map_of (queries v) ep = None"
    if "doGet e st (fst kv) = Inr v"
    using that find_failed_entry [OF f] by (auto simp: entry_ok_def list_all_iff)
next
  assume f: "find (\<lambda>kv. \<not> entry_ok e st kv) kvs = None"
  note q = kill_query_passed [OF f]
  show "new_calls st (fst (kill_query e st kvs)) = [MultiPut (kill_data e st kvs)]"
    by (simp add: q new_calls_def)
  show "code (snd (kill_query e st kvs)) = put_code e"
    by (simp add: q)
  show t: "table (fst (kill_query e st kvs))
        = (if put_code e = SUCCEEDED then put_all (kill_data e st kvs) (table st) else table st)"
    by (simp add: q)
  show "\<forall>kv' \<in> set kvs. \<exists>p. table st (fst kv') = Some p \<and>
         (fst kv', killed_session (snd kv') p) \<in> set (kill_data e st kvs) \<and>
         status_marked (queries p) (queries (killed_session (snd kv') p)) \<and>
         (\<forall>ep \<in> set (snd kv'). query_status (killed_session (snd kv') p) ep = Some KILLING) \<and>
         (put_code e = SUCCEEDED \<and> distinct (map fst kvs) \<longrightarrow>
            table (fst (kill_query e st kvs)) (fst kv') = Some (killed_session (snd kv') p))"
  proof
    fix kv' assume m: "kv' \<in> set kvs"
    from entry_ok_found [OF find_all_passed [OF f m]] obtain p where
      p: "table st (fst kv') = Some p" "session_in_meta e st (fst kv') = p"
        "\<forall>ep \<in> set (snd kv'). map_of (queries p) ep \<noteq> None"
      by blast
    have d: "(fst kv', killed_session (snd kv') p) \<in> set (kill_data e st kvs)"
      using m p(2) by (force simp: kill_data_def)
    have s: "status_marked (queries p) (queries (killed_session (snd kv') p))"
      by (simp add: killed_session_def status_marked_fold_set_killing)
    have k: "\<forall>ep \<in> set (snd kv'). query_status (killed_session (snd kv') p) ep = Some KILLING"
      using p(3) killed_session_status by blast
    have w: "table (fst (kill_query e st kvs)) (fst kv') = Some (killed_session (snd kv') p)"
      if "put_code e = SUCCEEDED \<and> distinct (map fst kvs)"
    proof -
      have "map fst (kill_data e st kvs) = map fst kvs" by (simp add: kill_data_def comp_def)
      with that have "distinct (map fst (kill_data e st kvs))" by simp
      from put_all_distinct [OF this d] that show ?thesis by (simp add: t)
    qed
    show "\<exists>p. table st (fst kv') = Some p \<and>
         (fst kv', killed_session (snd kv') p) \<in> set (kill_data e st kvs) \<and>
         status_marked (queries p) (queries (killed_session (snd kv') p)) \<and>
         (\<forall>ep \<in> set (snd kv'). query_status (killed_session (snd kv') p) ep = Some KILLING) \<and>
         (put_code e = SUCCEEDED \<and> distinct (map fst kvs) \<longrightarrow>
            table (fst (kill_query e st kvs)) (fst kv') = Some (killed_session (snd kv') p))"
      using p(1) d s k w by blast
  qed
qed

theorem kill_query_fail_fast_witness:
  "find (\<lambda>kv. \<not> entry_ok env_ok store_q kv) [(1, [8]), (2, [9])] = Some (2, [9]) \<and>
   doGet env_ok store_q (fst (2::int, [9::int])) = Inl E_KEY_NOT_FOUND \<and>
   kill_query env_ok store_q [(1, [8]), (2, [9])] = (store_q, \<lparr>code = E_SESSION_NOT_FOUND\<rparr>) \<and>
   find (\<lambda>kv. \<not> entry_ok env_ok store_q kv) [(1, [8])] = None \<and>
   new_calls store_q (fst (kill_query env_ok store_q [(1, [8])]))
     = [MultiPut [(1, mk_session 1 1 [(8, q_running\<lparr>status := KILLING\<rparr>)])]] \<and>
   code (snd (kill_query env_ok store_q [(1, [8])])) = SUCCEEDED"
proof -
  have f1: "find (\<lambda>kv. \<not> entry_ok env_ok store_q kv) [(1, [8]), (2, [9])] = Some (2, [9])"
    by (simp add: store_q_entries)
  have f2: "find (\<lambda>kv. \<not> entry_ok env_ok store_q kv) [(1, [8])] = None"
    by (simp add: store_q_entries)
  have g: "doGet env_ok store_q (fst (2::int, [9::int])) = Inl E_KEY_NOT_FOUND"
    by (simp add: store_q_get)
  have p: "put_code env_ok = SUCCEEDED" by (simp add: env_ok_def)
  have kd: "kill_data env_ok store_q [(1, [8])]
      = [(1, mk_session 1 1 [(8, q_running\<lparr>status := KILLING\<rparr>)])]"
    by (simp add: kill_data_def killed_session_def session_in_meta_def session_value_def
        store_q_get mk_session_def)
  note A = kill_query_fail_fast [of env_ok store_q "[(1, [8]), (2, [9])]" "(2, [9])" E_KEY_NOT_FOUND default_Session,
      THEN conjunct1, THEN mp, OF f1]
  note B = kill_query_fail_fast [of env_ok store_q "[(1, [8])]" "(2, [9])" E_KEY_NOT_FOUND default_Session,
      THEN conjunct2, THEN mp, OF f2]
  from A have a: "kill_query env_ok store_q [(1, [8]), (2, [9])]
      = (store_q, \<lparr>code = entry_code env_ok store_q (2, [9])\<rparr>)"
    by blast
  from B have b1: "new_calls store_q (fst (kill_query env_ok store_q [(1, [8])]))
      = [MultiPut (kill_data env_ok store_q [(1, [8])])]"
    and b2: "code (snd (kill_query env_ok store_q [(1, [8])])) = put_code env_ok"
    by blast+
  show ?thesis
    using f1 f2 g a b1 b2 by (simp only: kd p store_q_entries simp_thms)
qed

text \<open>
  The claim as stated fails on a request with one entry whose session is absent and
  another whose session lacks the plan id: the call answers with the code of the entry
  it meets first, whichever of the two it is.
\<close>

theorem kill_query_mixed_failures:
  "table store_q 2 = None \<and>
   table store_q 1 = Some (mk_session 1 1 [(8, q_running)]) \<and>
   map_of (queries (mk_session 1 1 [(8, q_running)])) 7 = None \<and>
   code (snd (kill_query env_ok store_q [(1, [7]), (2, [9])])) = E_QUERY_NOT_FOUND \<and>
   code (snd (kill_query env_ok store_q [(2, [9]), (1, [7])])) = E_SESSION_NOT_FOUND"
proof -
  have f1: "find (\<lambda>kv. \<not> entry_ok env_ok store_q kv) [(1, [7]), (2, [9])] = Some (1, [7])"
    and f2: "find (\<lambda>kv. \<not> entry_ok env_ok store_q kv) [(2, [9]), (1, [7])] = Some (2, [9])"
    by (simp_all add: store_q_entries)
  have t: "table store_q 2 = None" "table store_q 1 = Some (mk_session 1 1 [(8, q_running)])"
    "map_of (queries (mk_session 1 1 [(8, q_running)])) 7 = None"
    by (simp_all add: store_q_def mk_store_def sample_ids)
  have c: "code (snd (kill_query env_ok store_q [(1, [7]), (2, [9])])) = E_QUERY_NOT_FOUND"
    "code (snd (kill_query env_ok store_q [(2, [9]), (1, [7])])) = E_SESSION_NOT_FOUND"
    by (simp_all add: kill_query_failed [OF f1] kill_query_failed [OF f2] store_q_entries)
  show ?thesis
    by (intro conjI) (rule t c)+
qed

subsection \<open>Invariants of the persisted table\<close>

























end
